theory Spec2Isabelle
  imports Complex_Main "HOL-Library.Log_Nat" "HOL-Library.Sublist"
begin

section \<open>The number type of the script\<close>

text \<open>
  Every value \<^verbatim>\<open>addUpTo.js\<close> computes with is a JavaScript Number, an IEEE 754
  binary64 value. A finite double is a rational, so the finite values are \<open>Fin q\<close>;
  the two infinities and NaN are separate constructors. The two zeros are one value
  \<open>Fin 0\<close>: the script divides only by the literals 2 and 1000, and neither a
  comparison, nor \<^verbatim>\<open>toFixed\<close>, nor a template literal tells \<^verbatim>\<open>-0\<close> from \<^verbatim>\<open>0\<close>.
\<close>

datatype number = Fin rat | PInf | NInf | NaN

text \<open>\<open>expo x\<close> is the binary exponent of a non-zero \<open>x\<close>: \<open>2^e \<le> |x| < 2^(e+1)\<close>.\<close>

definition expo :: "rat \<Rightarrow> int" where
  "expo x = (if 1 \<le> \<bar>x\<bar> then bitlen \<lfloor>\<bar>x\<bar>\<rfloor> - 1 else - bitlen (\<lceil>1 / \<bar>x\<bar>\<rceil> - 1))"

definition round_half_even :: "rat \<Rightarrow> int" where
  "round_half_even q = (let f = \<lfloor>q\<rfloor>; r = q - of_int f in
      if r < 1 / 2 then f else if 1 / 2 < r then f + 1 else if even f then f else f + 1)"

text \<open>
  \<open>fl\<close> rounds an exact result to the nearest double, ties to even: 53 significant
  bits, the spacing of the subnormals below \<open>2^-1022\<close>, an infinity from \<open>2^1024\<close> on.
  Every arithmetic operator of the script is the exact operation followed by \<open>fl\<close>.
\<close>

definition fl :: "rat \<Rightarrow> number" where
  "fl x = (if x = 0 then Fin 0 else
     let ulp = 2 powi (max (expo x) (- 1022) - 52);
         y = of_int (round_half_even (x / ulp)) * ulp
     in if 2 powi 1024 \<le> y then PInf else if y \<le> - (2 powi 1024) then NInf else Fin y)"

fun js_add :: "number \<Rightarrow> number \<Rightarrow> number" where
  "js_add (Fin x) (Fin y) = fl (x + y)"
| "js_add NaN b = NaN"
| "js_add a NaN = NaN"
| "js_add PInf NInf = NaN"
| "js_add NInf PInf = NaN"
| "js_add PInf b = PInf"
| "js_add a PInf = PInf"
| "js_add NInf b = NInf"
| "js_add a NInf = NInf"

fun js_sub :: "number \<Rightarrow> number \<Rightarrow> number" where
  "js_sub (Fin x) (Fin y) = fl (x - y)"
| "js_sub NaN b = NaN"
| "js_sub a NaN = NaN"
| "js_sub PInf PInf = NaN"
| "js_sub NInf NInf = NaN"
| "js_sub PInf b = PInf"
| "js_sub NInf b = NInf"
| "js_sub a PInf = NInf"
| "js_sub a NInf = PInf"

fun js_mul :: "number \<Rightarrow> number \<Rightarrow> number" where
  "js_mul (Fin x) (Fin y) = fl (x * y)"
| "js_mul NaN b = NaN"
| "js_mul a NaN = NaN"
| "js_mul (Fin x) PInf = (if x = 0 then NaN else if 0 < x then PInf else NInf)"
| "js_mul (Fin x) NInf = (if x = 0 then NaN else if 0 < x then NInf else PInf)"
| "js_mul PInf (Fin y) = (if y = 0 then NaN else if 0 < y then PInf else NInf)"
| "js_mul NInf (Fin y) = (if y = 0 then NaN else if 0 < y then NInf else PInf)"
| "js_mul PInf PInf = PInf"
| "js_mul PInf NInf = NInf"
| "js_mul NInf PInf = NInf"
| "js_mul NInf NInf = PInf"

text \<open>A zero divisor is read as \<^verbatim>\<open>+0\<close>; the script never divides by zero.\<close>

fun js_div :: "number \<Rightarrow> number \<Rightarrow> number" where
  "js_div (Fin x) (Fin y) =
     (if y = 0 then (if x = 0 then NaN else if 0 < x then PInf else NInf) else fl (x / y))"
| "js_div NaN b = NaN"
| "js_div a NaN = NaN"
| "js_div (Fin x) PInf = Fin 0"
| "js_div (Fin x) NInf = Fin 0"
| "js_div PInf (Fin y) = (if 0 \<le> y then PInf else NInf)"
| "js_div NInf (Fin y) = (if 0 \<le> y then NInf else PInf)"
| "js_div PInf b = NaN"
| "js_div NInf b = NaN"

text \<open>The relational operators: every comparison with NaN is false.\<close>

fun js_lt :: "number \<Rightarrow> number \<Rightarrow> bool" where
  "js_lt (Fin x) (Fin y) = (x < y)"
| "js_lt NaN b = False"
| "js_lt a NaN = False"
| "js_lt a NInf = False"
| "js_lt NInf b = True"
| "js_lt PInf b = False"
| "js_lt a PInf = True"

fun js_le :: "number \<Rightarrow> number \<Rightarrow> bool" where
  "js_le (Fin x) (Fin y) = (x \<le> y)"
| "js_le NaN b = False"
| "js_le a NaN = False"
| "js_le NInf b = True"
| "js_le a PInf = True"
| "js_le a b = False"

definition js_gt :: "number \<Rightarrow> number \<Rightarrow> bool" where
  "js_gt a b = js_lt b a"

text \<open>\<^verbatim>\<open>===\<close> and \<^verbatim>\<open>!==\<close> on two numbers: NaN is not equal to itself.\<close>

fun strict_eq :: "number \<Rightarrow> number \<Rightarrow> bool" where
  "strict_eq (Fin x) (Fin y) = (x = y)"
| "strict_eq PInf PInf = True"
| "strict_eq NInf NInf = True"
| "strict_eq a b = False"

definition strict_ne :: "number \<Rightarrow> number \<Rightarrow> bool" where
  "strict_ne a b = (\<not> strict_eq a b)"

text \<open>\<^verbatim>\<open>Math.abs\<close>.\<close>

fun js_abs :: "number \<Rightarrow> number" where
  "js_abs (Fin x) = Fin \<bar>x\<bar>"
| "js_abs PInf = PInf"
| "js_abs NInf = PInf"
| "js_abs NaN = NaN"

section \<open>The tested values and the two strategies\<close>

definition TESTED_VALUES :: "number list" where
  "TESTED_VALUES =
     [Fin 1, Fin 10, Fin 100, Fin 1000, Fin 10000, Fin 100000, Fin 1000000, Fin 10000000,
      Fin 100000000, Fin 1000000000, Fin 9000000000]"

text \<open>
  The \<^verbatim>\<open>for\<close> loop of \<^verbatim>\<open>sumIterative\<close>, with its two variables \<^verbatim>\<open>total\<close> (here \<open>tot\<close>) and \<open>i\<close>.
  \<^verbatim>\<open>i++\<close> is a rounded addition as well, so from \<open>2^53\<close> on \<open>i\<close> stops growing and
  the loop does not return: the result is an option, \<open>None\<close> when the loop runs forever.
\<close>

partial_function (option) sumIterative_loop :: "number \<Rightarrow> number \<Rightarrow> number \<Rightarrow> number option" where
  "sumIterative_loop n tot i =
     (if js_le i n then sumIterative_loop n (js_add tot i) (js_add i (Fin 1)) else Some tot)"

declare sumIterative_loop.simps [code]

definition sumIterative :: "number \<Rightarrow> number option" where
  "sumIterative n = sumIterative_loop n (Fin 0) (Fin 1)"

definition sumFormula :: "number \<Rightarrow> number" where
  "sumFormula n = js_div (js_mul n (js_add n (Fin 1))) (Fin 2)"

section \<open>The timing helper\<close>

text \<open>
  The world the script runs in: the readings \<^verbatim>\<open>performance.now()\<close> will return, in
  milliseconds, one after the other (\<open>timer\<close>, the values of the doubles returned, with
  \<open>reads\<close> counting those taken so far), the lines written by \<^verbatim>\<open>console.log\<close>, and
  whatever state a measured computation keeps of its own.
\<close>

record 's world =
  timer :: "nat \<Rightarrow> rat"
  reads :: nat
  console :: "string list"
  store :: 's

definition performance_now :: "'s world \<Rightarrow> number \<times> 's world" where
  "performance_now w = (Fin (timer w (reads w)), w\<lparr>reads := Suc (reads w)\<rparr>)"

definition console_log :: "string \<Rightarrow> 's world \<Rightarrow> 's world" where
  "console_log line w = w\<lparr>console := console w @ [line]\<rparr>"

text \<open>
  A computation changes the world and returns a value (\<open>Inr\<close>), throws (\<open>Inl\<close>), or
  does not come back (\<open>None\<close>). The function given to \<^verbatim>\<open>measureExecTime\<close> is a
  computation for each argument list; \<open>args\<close> is the whole list \<^verbatim>\<open>...args\<close>.
\<close>

type_synonym ('e, 'a, 's) computation = "'s world \<Rightarrow> (('e + 'a) \<times> 's world) option"

record 'a measurement =
  time :: number
  result :: 'a

definition measureExecTime ::
  "('x \<Rightarrow> ('e, 'a, 's) computation) \<Rightarrow> 'x \<Rightarrow> ('e, 'a measurement, 's) computation" where
  "measureExecTime func args w =
     (let (start, w1) = performance_now w in
      case func args w1 of
        None \<Rightarrow> None
      | Some (Inl e, w2) \<Rightarrow> Some (Inl e, w2)
      | Some (Inr r, w2) \<Rightarrow>
          (let (end, w3) = performance_now w2 in
           Some (Inr \<lparr>time = js_div (js_sub end start) (Fin 1000), result = r\<rparr>, w3)))"

text \<open>
  Calling one of the two strategies. Its result is a function of the argument alone,
  so nothing the script itself keeps would show that the call was made, or when. To
  make the order of the calls a fact about the world, the store of the runner is a
  log of invocations: a call notes which function was called, with which argument,
  and how many clock readings and console lines came before it.
\<close>

record invocation =
  callee :: string
  argument :: number
  readings_before :: nat
  lines_before :: nat

definition invoke ::
  "string \<Rightarrow> (number \<Rightarrow> 'a option) \<Rightarrow> number \<Rightarrow> ('e, 'a, invocation list) computation" where
  "invoke name f x w =
     map_option
       (\<lambda>r. (Inr r,
             w\<lparr>store := store w @ [\<lparr>callee = name, argument = x, readings_before = reads w,
                                     lines_before = length (console w)\<rparr>]\<rparr>))
       (f x)"

section \<open>The benchmark runner\<close>

text \<open>
  \<^verbatim>\<open>toFixed(6)\<close> returns a string. For a finite \<open>x\<close> below \<open>10^21\<close> in magnitude it is
  the decimal numeral of \<open>n / 10^6\<close> with six decimals, where \<open>n\<close> is the integer
  nearest to \<open>|x| * 10^6\<close> (the larger one of two), with a minus sign in front when
  \<open>x < 0\<close>: \<open>Digits (x < 0) n\<close>. For every other number it is the string that
  \<^verbatim>\<open>String(x)\<close> gives: \<open>Plain x\<close>. Reading such a string back as a number, as the
  comparison with \<^verbatim>\<open>0\<close> and \<^verbatim>\<open>Math.abs\<close> do, gives the double nearest to the numeral
  (the language allows a coarser reading of a numeral of more than 20 significant
  digits; its sign is the same), and gives \<open>x\<close> back from \<^verbatim>\<open>String(x)\<close>.
\<close>

datatype fixed = Digits bool nat | Plain number

fun toFixed6 :: "number \<Rightarrow> fixed" where
  "toFixed6 (Fin x) =
     (if 10 ^ 21 \<le> \<bar>x\<bar> then Plain (Fin x) else Digits (x < 0) (nat \<lfloor>\<bar>x\<bar> * 10 ^ 6 + 1 / 2\<rfloor>))"
| "toFixed6 v = Plain v"

fun toNumber :: "fixed \<Rightarrow> number" where
  "toNumber (Digits neg n) = fl ((if neg then - 1 else 1) * of_nat n / 10 ^ 6)"
| "toNumber (Plain v) = v"

definition ESC :: string where
  "ESC = [CHR 0x1B]"

definition fasterMethod :: "number \<Rightarrow> number \<Rightarrow> string" where
  "fasterMethod iterativeTime formulaTime =
     (let timeDifference = toFixed6 (js_sub iterativeTime formulaTime) in
      if js_gt (toNumber timeDifference) (Fin 0) then ''Formula'' else ''Iterative'')"

text \<open>
  The three lines written for one tested value. \<open>toStr\<close> is the conversion of a
  number to a string that a template literal applies; it belongs to the language, not
  to the script, and is a parameter here.
\<close>

definition tested_line :: "(number \<Rightarrow> string) \<Rightarrow> number \<Rightarrow> string" where
  "tested_line toStr N = [CHR 0x0A] @ ESC @ ''[36mTESTED VALUE: '' @ toStr N @ ESC @ ''[0m''"

definition difference_line :: "(number \<Rightarrow> string) \<Rightarrow> number \<Rightarrow> number \<Rightarrow> string" where
  "difference_line toStr iterativeTime formulaTime =
     ''Time Difference: ''
       @ toStr (js_abs (toNumber (toFixed6 (js_sub iterativeTime formulaTime))))
       @ '' seconds ('' @ fasterMethod iterativeTime formulaTime @ '' is faster)''"

definition verdict_line :: "(number \<Rightarrow> string) \<Rightarrow> number \<Rightarrow> number \<Rightarrow> string" where
  "verdict_line toStr iterativeResult formulaResult =
     (if strict_ne iterativeResult formulaResult
      then ESC @ ''[31mWARNING: Results different! Iterative: '' @ toStr iterativeResult
             @ '', Formula: '' @ toStr formulaResult @ ESC @ ''[0m''
      else ESC @ ''[32mResults are consistent: '' @ toStr iterativeResult @ ESC @ ''[0m'')"

text \<open>The callback given to \<^verbatim>\<open>forEach\<close>.\<close>

definition iteration ::
  "(number \<Rightarrow> string) \<Rightarrow> number \<Rightarrow> ('e, unit, invocation list) computation" where
  "iteration toStr N w0 =
     (let w1 = console_log (tested_line toStr N) w0 in
      case measureExecTime (invoke ''sumIterative'' sumIterative) N w1 of
        None \<Rightarrow> None
      | Some (Inl e, w2) \<Rightarrow> Some (Inl e, w2)
      | Some (Inr iterativeResult, w2) \<Rightarrow>
          (case measureExecTime (invoke ''sumFormula'' (\<lambda>n. Some (sumFormula n))) N w2 of
             None \<Rightarrow> None
           | Some (Inl e, w3) \<Rightarrow> Some (Inl e, w3)
           | Some (Inr formulaResult, w3) \<Rightarrow>
               (let w4 = console_log
                          (difference_line toStr (time iterativeResult) (time formulaResult)) w3;
                    w5 = console_log
                          (verdict_line toStr (result iterativeResult) (result formulaResult)) w4
                in Some (Inr (), w5))))"



text \<open>What the data model says of a tested value: a non-negative integer.\<close>

fun nonneg_integer :: "number \<Rightarrow> bool" where
  "nonneg_integer (Fin x) = (0 \<le> x \<and> of_int \<lfloor>x\<rfloor> = x)"
| "nonneg_integer v = False"

text \<open>
  For the statements about the runner: the duration that \<^verbatim>\<open>measureExecTime\<close> computes
  from the readings number \<open>k\<close> and \<open>k + 1\<close>, and the lines written for the tested
  value \<open>N\<close> when its first reading is number \<open>k\<close>: three of them when
  \<^verbatim>\<open>sumIterative(N)\<close> returns, and the first one alone when it does not.
\<close>

definition elapsed :: "(nat \<Rightarrow> rat) \<Rightarrow> nat \<Rightarrow> number" where
  "elapsed tm k = js_div (js_sub (Fin (tm (Suc k))) (Fin (tm k))) (Fin 1000)"

definition block :: "(number \<Rightarrow> string) \<Rightarrow> (nat \<Rightarrow> rat) \<Rightarrow> nat \<Rightarrow> number \<Rightarrow> string list" where
  "block toStr tm k N =
     (case sumIterative N of
        None \<Rightarrow> [tested_line toStr N]
      | Some iterativeResult \<Rightarrow>
          [tested_line toStr N,
           difference_line toStr (elapsed tm k) (elapsed tm (k + 2)),
           verdict_line toStr iterativeResult (sumFormula N)])"

text \<open>
  The two calls logged for the tested value \<open>N\<close> when \<open>r\<close> readings and \<open>l\<close> lines came
  before its pass: \<^verbatim>\<open>sumIterative\<close> after one more reading and one more line,
  \<^verbatim>\<open>sumFormula\<close> after three more readings.
\<close>

definition timed_calls :: "nat \<Rightarrow> nat \<Rightarrow> number \<Rightarrow> invocation list" where
  "timed_calls r l N =
     [\<lparr>callee = ''sumIterative'', argument = N, readings_before = r + 1, lines_before = l + 1\<rparr>,
      \<lparr>callee = ''sumFormula'', argument = N, readings_before = r + 3, lines_before = l + 1\<rparr>]"

section \<open>Rounding to a double\<close>

subsection \<open>Powers of two and the binary exponent\<close>

lemma p2_less_iff: "(2::rat) powi a < 2 powi b \<longleftrightarrow> a < b"
proof
  assume h: "(2::rat) powi a < 2 powi b"
  show "a < b"
  proof (rule ccontr)
    assume "\<not> a < b"
    then have "b \<le> a" by simp
    then have "(2::rat) powi b \<le> 2 powi a" by (rule power_int_increasing) simp
    with h show False by simp
  qed
next
  assume "a < b"
  then show "(2::rat) powi a < 2 powi b" by (rule power_int_strict_increasing) simp
qed

lemma p2_le_iff: "(2::rat) powi a \<le> 2 powi b \<longleftrightarrow> a \<le> b"
  using p2_less_iff[of b a] by (simp add: not_less[symmetric])

lemma expo_ge1:
  assumes "1 \<le> \<bar>x\<bar>"
  shows "2 powi (expo x) \<le> \<bar>x\<bar> \<and> \<bar>x\<bar> < 2 powi (expo x + 1)"
proof -
  define k where "k = \<lfloor>\<bar>x\<bar>\<rfloor>"
  have k1: "1 \<le> k" using assms by (simp add: k_def le_floor_iff)
  then have kpos: "0 < k" by simp
  have b1: "1 \<le> bitlen k" using kpos by (simp add: bitlen_alt_def)
  have e: "expo x = bitlen k - 1" using assms by (simp add: expo_def k_def)
  from bitlen_bounds[OF kpos]
  have lo: "2 ^ nat (bitlen k - 1) \<le> k" and hi: "k < 2 ^ nat (bitlen k)" by simp_all
  have "(2::rat) powi (expo x) = 2 ^ nat (bitlen k - 1)"
    using b1 by (simp add: e power_int_nonneg_exp)
  also have "\<dots> = of_int (2 ^ nat (bitlen k - 1))" by simp
  also have "\<dots> \<le> of_int k" using lo by (simp only: of_int_le_iff)
  also have "\<dots> \<le> \<bar>x\<bar>" by (simp add: k_def)
  finally have L: "2 powi (expo x) \<le> \<bar>x\<bar>" .
  have "k + 1 \<le> 2 ^ nat (bitlen k)" using hi by simp
  then have "(of_int (k + 1) :: rat) \<le> of_int (2 ^ nat (bitlen k))" by (simp only: of_int_le_iff)
  moreover have "\<bar>x\<bar> < of_int (k + 1)" using floor_correct[of "\<bar>x\<bar>"] by (simp add: k_def)
  ultimately have "\<bar>x\<bar> < of_int (2 ^ nat (bitlen k))" by linarith
  also have "\<dots> = 2 powi (expo x + 1)" using b1 by (simp add: e power_int_nonneg_exp)
  finally show ?thesis using L by simp
qed

lemma expo_lt1:
  assumes "x \<noteq> 0" "\<bar>x\<bar> < 1"
  shows "2 powi (expo x) \<le> \<bar>x\<bar> \<and> \<bar>x\<bar> < 2 powi (expo x + 1)"
proof -
  define y where "y = 1 / \<bar>x\<bar>"
  define m where "m = \<lceil>y\<rceil> - 1"
  have xpos: "0 < \<bar>x\<bar>" using assms by simp
  have y1: "1 < y" using assms xpos by (simp add: y_def)
  have xy: "\<bar>x\<bar> = 1 / y" by (simp add: y_def)
  have m_lt: "of_int m < y" using ceiling_correct[of y] by (simp add: m_def)
  have m_ge: "y \<le> of_int m + 1" unfolding m_def by simp
  have "1 < \<lceil>y\<rceil>" using y1 by (simp add: less_ceiling_iff)
  then have mpos: "0 < m" by (simp add: m_def)
  have b1: "1 \<le> bitlen m" using mpos by (simp add: bitlen_alt_def)
  have e: "expo x = - bitlen m" using assms by (simp add: expo_def m_def y_def)
  from bitlen_bounds[OF mpos]
  have lo: "2 ^ nat (bitlen m - 1) \<le> m" and hi: "m < 2 ^ nat (bitlen m)" by simp_all
  have "m + 1 \<le> 2 ^ nat (bitlen m)" using hi by simp
  then have "(of_int (m + 1) :: rat) \<le> of_int (2 ^ nat (bitlen m))" by (simp only: of_int_le_iff)
  then have yle: "y \<le> 2 ^ nat (bitlen m)" using m_ge by simp
  have "(of_int (2 ^ nat (bitlen m - 1)) :: rat) \<le> of_int m" using lo by (simp only: of_int_le_iff)
  then have "of_int (2 ^ nat (bitlen m - 1)) < y" using m_lt by linarith
  then have ygt: "2 ^ nat (bitlen m - 1) < y" by simp
  have ypos: "0 < y" using y1 by simp
  have "(2::rat) powi (expo x) = 1 / 2 ^ nat (bitlen m)"
    using b1 by (simp add: e power_int_minus_divide power_int_nonneg_exp)
  also have "\<dots> \<le> 1 / y" using yle ypos by (simp add: frac_le)
  finally have L: "2 powi (expo x) \<le> \<bar>x\<bar>" by (simp add: xy)
  have "1 / y < 1 / 2 ^ nat (bitlen m - 1)" using ygt by (simp add: frac_less2)
  also have "\<dots> = (2::rat) powi (- (bitlen m - 1))"
    using b1 by (simp only: power_int_minus_divide power_int_nonneg_exp[of "bitlen m - 1"])
  also have "\<dots> = 2 powi (expo x + 1)" by (simp add: e)
  finally show ?thesis using L by (simp add: xy)
qed

lemma expo_bounds:
  "x \<noteq> 0 \<Longrightarrow> 2 powi (expo x) \<le> \<bar>x\<bar> \<and> \<bar>x\<bar> < 2 powi (expo x + 1)"
  using expo_ge1[of x] expo_lt1[of x] by (cases "1 \<le> \<bar>x\<bar>") auto

lemma expo_eqI:
  assumes "2 powi e \<le> \<bar>x\<bar>" "\<bar>x\<bar> < 2 powi (e + 1)"
  shows "expo x = e"
proof -
  have "0 < (2::rat) powi e" by simp
  then have "0 < \<bar>x\<bar>" using assms(1) by linarith
  then have "x \<noteq> 0" by simp
  from expo_bounds[OF this]
  have a: "2 powi (expo x) \<le> \<bar>x\<bar>" and b: "\<bar>x\<bar> < 2 powi (expo x + 1)" by simp_all
  have "(2::rat) powi e < 2 powi (expo x + 1)" using assms(1) b by linarith
  then have 1: "e < expo x + 1" by (simp add: p2_less_iff)
  have "(2::rat) powi (expo x) < 2 powi (e + 1)" using assms(2) a by linarith
  then have 2: "expo x < e + 1" by (simp add: p2_less_iff)
  from 1 2 show ?thesis by simp
qed

subsection \<open>Rounding to the nearest integer\<close>

lemma rhe_of_int: "round_half_even (of_int k) = k"
  by (simp add: round_half_even_def)

lemma rhe_ge:
  assumes "of_int k \<le> q"
  shows "k \<le> round_half_even q"
proof -
  have "k \<le> \<lfloor>q\<rfloor>" using assms by (simp add: le_floor_iff)
  then show ?thesis by (auto simp: round_half_even_def Let_def)
qed

lemma rhe_le:
  assumes "q \<le> of_int k"
  shows "round_half_even q \<le> k"
proof (cases "q = of_int k")
  case True
  then show ?thesis by (simp add: rhe_of_int)
next
  case False
  with assms have "q < of_int k" by simp
  then have "\<lfloor>q\<rfloor> < k" by (simp add: floor_less_iff)
  then show ?thesis by (auto simp: round_half_even_def Let_def)
qed

lemma rhe_eqI:
  assumes "\<bar>q - of_int r\<bar> < 1 / 2"
  shows "round_half_even q = r"
proof (cases "of_int r \<le> q")
  case True
  then have "\<lfloor>q\<rfloor> = r" using assms by (intro floor_unique) (simp_all add: abs_less_iff)
  then show ?thesis using assms True by (simp add: round_half_even_def Let_def abs_less_iff)
next
  case False
  then have "\<lfloor>q\<rfloor> = r - 1" using assms by (intro floor_unique) (simp_all add: abs_less_iff)
  then show ?thesis using assms False by (simp add: round_half_even_def Let_def abs_less_iff)
qed

subsection \<open>Values that rounding leaves alone\<close>

text \<open>A value with at most 53 significant bits is a double.\<close>

lemma fl_exact:
  assumes x: "x = of_int m * 2 powi j"
    and m: "\<bar>m\<bar> < 2 ^ 53"
    and j: "- 1074 \<le> j"
    and ov: "\<bar>x\<bar> < 2 powi 1024"
  shows "fl x = Fin x"
proof (cases "x = 0")
  case True
  then show ?thesis by (simp add: fl_def)
next
  case False
  define E where "E = max (expo x) (- 1022)"
  have "\<bar>x\<bar> = of_int \<bar>m\<bar> * 2 powi j" by (simp add: x abs_mult)
  also have "\<dots> < of_int (2 ^ 53) * 2 powi j"
    using m by (intro mult_strict_right_mono) (simp_all only: of_int_less_iff zero_less_power_int zero_less_numeral)
  also have "\<dots> = 2 powi (j + 53)" by (simp add: power_int_add)
  finally have "\<bar>x\<bar> < 2 powi (j + 53)" .
  moreover have "2 powi (expo x) \<le> \<bar>x\<bar>" using expo_bounds[OF False] by simp
  ultimately have "(2::rat) powi (expo x) < 2 powi (j + 53)" by linarith
  then have "expo x < j + 53" by (simp add: p2_less_iff)
  then have d: "0 \<le> j - (E - 52)" using j by (simp add: E_def)
  have "x / 2 powi (E - 52) = of_int m * (2 powi j / 2 powi (E - 52))" by (simp add: x)
  also have "2 powi j / 2 powi (E - 52) = (2::rat) powi (j - (E - 52))"
    by (simp add: power_int_diff)
  also have "\<dots> = of_int (2 ^ nat (j - (E - 52)))"
    using d by (simp add: power_int_nonneg_exp)
  finally have q: "x / 2 powi (E - 52) = of_int (m * 2 ^ nat (j - (E - 52)))" by simp
  have "of_int (round_half_even (x / 2 powi (E - 52))) * 2 powi (E - 52) = x / 2 powi (E - 52) * 2 powi (E - 52)"
    by (simp only: q rhe_of_int)
  also have "\<dots> = x" by simp
  finally have y: "of_int (round_half_even (x / 2 powi (E - 52))) * 2 powi (E - 52) = x" .
  have "x < 2 powi 1024" "- (2 powi 1024) < x" using ov by (simp_all only: abs_less_iff) simp_all
  then show ?thesis
    using False unfolding fl_def Let_def E_def[symmetric] y by (simp only: if_False not_le[symmetric])
qed

lemma fl_exact_int:
  assumes "\<bar>k\<bar> \<le> 2 ^ 53"
  shows "fl (of_int k) = Fin (of_int k)"
proof (cases "\<bar>k\<bar> = 2 ^ 53")
  case True
  then have "k = 2 ^ 53 \<or> k = - (2 ^ 53)" by linarith
  then show ?thesis
  proof
    assume k: "k = 2 ^ 53"
    show ?thesis using fl_exact[of "of_int k" 1 53] by (simp add: k)
  next
    assume k: "k = - (2 ^ 53)"
    show ?thesis using fl_exact[of "of_int k" "- 1" 53] by (simp add: k)
  qed
next
  case False
  with assms have "\<bar>k\<bar> < 2 ^ 53" by simp
  moreover have "\<bar>rat_of_int k\<bar> < 2 powi 1024"
  proof -
    have "\<bar>rat_of_int k\<bar> = of_int \<bar>k\<bar>" by simp
    also have "\<dots> \<le> of_int (2 ^ 53)" using assms by (simp only: of_int_le_iff)
    also have "\<dots> < 2 powi 1024" by simp
    finally show ?thesis .
  qed
  ultimately show ?thesis using fl_exact[of "of_int k" k 0] by simp
qed

lemma fl_exact_even:
  assumes "\<bar>k\<bar> \<le> 2 ^ 53"
  shows "fl (of_int (2 * k)) = Fin (of_int (2 * k))"
proof (cases "\<bar>k\<bar> = 2 ^ 53")
  case True
  then have "k = 2 ^ 53 \<or> k = - (2 ^ 53)" by linarith
  then show ?thesis
  proof
    assume k: "k = 2 ^ 53"
    show ?thesis using fl_exact[of "of_int (2 * k)" 1 54] by (simp add: k)
  next
    assume k: "k = - (2 ^ 53)"
    show ?thesis using fl_exact[of "of_int (2 * k)" "- 1" 54] by (simp add: k)
  qed
next
  case False
  with assms have "\<bar>k\<bar> < 2 ^ 53" by simp
  moreover have "\<bar>rat_of_int (2 * k)\<bar> < 2 powi 1024"
  proof -
    have "\<bar>rat_of_int (2 * k)\<bar> = of_int (2 * \<bar>k\<bar>)" by (simp add: abs_mult)
    also have "\<dots> \<le> of_int (2 * 2 ^ 53)" using assms by (simp only: of_int_le_iff)
    also have "\<dots> < 2 powi 1024" by simp
    finally show ?thesis .
  qed
  ultimately show ?thesis using fl_exact[of "of_int (2 * k)" k 1] by simp
qed

lemma fl_of_nat:
  assumes "n \<le> 2 ^ 53"
  shows "fl (of_nat n) = Fin (of_nat n)"
proof -
  have "int n \<le> int (2 ^ 53)" using assms by (simp only: of_nat_le_iff)
  then have "\<bar>int n\<bar> \<le> 2 ^ 53" by simp
  from fl_exact_int[OF this] show ?thesis by simp
qed

lemma fl_1: "fl 1 = Fin 1"
  using fl_exact_int[of 1] by simp

subsection \<open>Rounding a given value, and the sign of the result\<close>

lemma fl_eqI:
  assumes lo: "2 powi e \<le> \<bar>x\<bar>" and hi: "\<bar>x\<bar> < 2 powi (e + 1)"
    and e: "- 1022 \<le> e" "e \<le> 1022"
    and r: "round_half_even (x / 2 powi (e - 52)) = r"
  shows "fl x = Fin (of_int r * 2 powi (e - 52))"
proof -
  have ex: "expo x = e" using lo hi by (rule expo_eqI)
  have "0 < (2::rat) powi e" by simp
  then have "0 < \<bar>x\<bar>" using lo by linarith
  then have x0: "x \<noteq> 0" by simp
  define u where "u = (2::rat) powi (e - 52)"
  have upos: "0 < u" by (simp add: u_def)
  have u53: "of_int (2 ^ 53) * u = 2 powi (e + 1)" by (simp add: u_def power_int_add power_int_diff)
  have "\<bar>x\<bar> < of_int (2 ^ 53) * u" using hi u53 by simp
  then have "x / u \<le> of_int (2 ^ 53)" "of_int (- (2 ^ 53)) \<le> x / u"
    using upos by (simp_all add: pos_divide_le_eq pos_le_divide_eq abs_less_iff)
  then have "r \<le> 2 ^ 53" "- (2 ^ 53) \<le> r"
    using rhe_le[of "x / u" "2 ^ 53"] rhe_ge[of "- (2 ^ 53)" "x / u"] r by (simp_all add: u_def)
  then have "\<bar>r\<bar> \<le> 2 ^ 53" by simp
  then have "\<bar>rat_of_int r\<bar> \<le> of_int (2 ^ 53)" by (simp only: of_int_abs[symmetric] of_int_le_iff)
  then have "\<bar>of_int r * u\<bar> \<le> of_int (2 ^ 53) * u"
    using upos by (simp add: abs_mult mult_right_mono)
  also have "\<dots> = 2 powi (e + 1)" by (rule u53)
  also have "\<dots> < 2 powi 1024" by (rule power_int_strict_increasing) (use e in simp_all)
  finally have "of_int r * u < 2 powi 1024" "- (2 powi 1024) < of_int r * u"
    by (simp_all only: abs_less_iff) simp_all
  then show ?thesis
    using x0 e r unfolding fl_def ex Let_def u_def[symmetric]
    by (simp add: max_def u_def[symmetric] not_le[symmetric])
qed

lemma fl_nonneg:
  assumes "0 \<le> x"
  shows "js_le (Fin 0) (fl x)"
proof (cases "x = 0")
  case True
  then show ?thesis by (simp add: fl_def)
next
  case False
  define u where "u = (2::rat) powi (max (expo x) (- 1022) - 52)"
  have upos: "0 < u" by (simp add: u_def)
  have "of_int 0 \<le> x / u" using assms upos by simp
  then have "0 \<le> round_half_even (x / u)" by (rule rhe_ge)
  then have "0 \<le> rat_of_int (round_half_even (x / u)) * u" using upos by simp
  then show ?thesis
    using False unfolding fl_def Let_def u_def[symmetric] by simp
qed

lemma fl_nonpos:
  assumes "x \<le> 0"
  shows "js_le (fl x) (Fin 0)"
proof (cases "x = 0")
  case True
  then show ?thesis by (simp add: fl_def)
next
  case False
  define u where "u = (2::rat) powi (max (expo x) (- 1022) - 52)"
  have upos: "0 < u" by (simp add: u_def)
  have "x / u \<le> of_int 0" using assms upos by (simp add: divide_le_0_iff)
  then have "round_half_even (x / u) \<le> 0" by (rule rhe_le)
  then have y: "rat_of_int (round_half_even (x / u)) * u \<le> 0"
    using upos by (simp add: mult_le_0_iff)
  have "(0::rat) < 2 powi 1024" by simp
  with y have "\<not> 2 powi 1024 \<le> rat_of_int (round_half_even (x / u)) * u" by linarith
  with y show ?thesis
    using False unfolding fl_def Let_def u_def[symmetric] by simp
qed

lemma fl_pos:
  assumes "2 powi (- 1074) \<le> x"
  shows "js_lt (Fin 0) (fl x)"
proof -
  have "(0::rat) < 2 powi (- 1074)" by (rule zero_less_power_int) simp
  with assms have xpos: "0 < x" by linarith
  then have x0: "x \<noteq> 0" by simp
  define E where "E = max (expo x) (- 1022)"
  define u where "u = (2::rat) powi (E - 52)"
  have upos: "0 < u" by (simp add: u_def)
  have "u \<le> x"
  proof (cases "- 1022 \<le> expo x")
    case True
    then have "E = expo x" by (simp add: E_def)
    then have "u \<le> 2 powi (expo x)" unfolding u_def by (simp add: p2_le_iff)
    also have "\<dots> \<le> \<bar>x\<bar>" using expo_bounds[OF x0] by simp
    finally show ?thesis using xpos by simp
  next
    case False
    then have "E = - 1022" by (simp add: E_def)
    then have "u = 2 powi (- 1074)" by (simp add: u_def)
    then show ?thesis using assms by simp
  qed
  then have "of_int 1 \<le> x / u" using upos by (simp add: pos_le_divide_eq)
  then have "1 \<le> round_half_even (x / u)" by (rule rhe_ge)
  then have "rat_of_int 1 \<le> of_int (round_half_even (x / u))" by (simp only: of_int_le_iff)
  then have "1 * u \<le> of_int (round_half_even (x / u)) * u"
    using upos by (intro mult_right_mono) simp_all
  then have y: "0 < rat_of_int (round_half_even (x / u)) * u" using upos by linarith
  have "(0::rat) < 2 powi 1024" by simp
  with y have "\<not> rat_of_int (round_half_even (x / u)) * u \<le> - (2 powi 1024)" by linarith
  with y show ?thesis
    using x0 unfolding fl_def Let_def E_def[symmetric] u_def[symmetric] by simp
qed

section \<open>The two strategies\<close>

text \<open>The loop, started anywhere in the range, while every sum stays below \<open>2^53\<close>.\<close>

lemma sum_from: "I \<le> N \<Longrightarrow> (\<Sum>k = I..N. k) = I + (\<Sum>k = Suc I..N. k)" for I N :: nat
  by (simp add: sum.atLeast_Suc_atMost)

lemma loop_exact:
  fixes N T I :: nat
  assumes "I \<le> Suc N" "N < 2 ^ 53" "T + (\<Sum>k = I..N. k) \<le> 2 ^ 53"
  shows "sumIterative_loop (Fin (of_nat N)) (Fin (of_nat T)) (Fin (of_nat I))
           = Some (Fin (of_nat (T + (\<Sum>k = I..N. k))))"
  using assms
proof (induction "Suc N - I" arbitrary: I T)
  case 0
  then have "I = Suc N" by simp
  then show ?case by (subst sumIterative_loop.simps) simp
next
  case (Suc d)
  then have le: "I \<le> N" by simp
  have s: "(\<Sum>k = I..N. k) = I + (\<Sum>k = Suc I..N. k)" using le by (rule sum_from)
  have b1: "T + I \<le> 2 ^ 53" using Suc.prems(3) s by simp
  have b2: "Suc I \<le> 2 ^ 53" using le Suc.prems(2) by simp
  have a1: "js_add (Fin (of_nat T)) (Fin (of_nat I)) = Fin (of_nat (T + I))"
    using fl_of_nat[OF b1] by simp
  have a2: "js_add (Fin (of_nat I)) (Fin 1) = Fin (of_nat (Suc I))"
    using fl_of_nat[OF b2] by (simp add: add.commute)
  have ih: "sumIterative_loop (Fin (of_nat N)) (Fin (of_nat (T + I))) (Fin (of_nat (Suc I)))
           = Some (Fin (of_nat (T + I + (\<Sum>k = Suc I..N. k))))"
    using Suc.hyps(2) Suc.prems s le by (intro Suc.hyps(1)) simp_all
  show ?case
    by (subst sumIterative_loop.simps) (simp only: a1 a2 ih s js_le.simps of_nat_le_iff le if_True add.assoc)
qed




text \<open>
  From \<open>2^53\<close> on it does not return: \<open>2^53 + 1\<close> lies halfway between two doubles and
  rounds to the even one, so \<^verbatim>\<open>i++\<close> leaves \<open>i = 2^53\<close> where it is and the test
  \<^verbatim>\<open>i <= n\<close> stays true.
\<close>

lemma fl_stuck: "fl 9007199254740993 = Fin 9007199254740992"
proof -
  have "\<lfloor>(9007199254740993::rat) / 2\<rfloor> = 4503599627370496"
    by (rule floor_unique) simp_all
  then have "round_half_even (9007199254740993 / 2 powi (53 - 52)) = 4503599627370496"
    by (simp add: round_half_even_def)
  from fl_eqI[OF _ _ _ _ this] show ?thesis by simp
qed

lemma loop_stuck_aux:
  assumes "sumIterative_loop n t i = Some y"
  shows "\<not> (js_le (Fin 9007199254740992) n \<and> i = Fin 9007199254740992)"
proof (rule sumIterative_loop.raw_induct
    [where P = "\<lambda>n t i y. \<not> (js_le (Fin 9007199254740992) n \<and> i = Fin 9007199254740992)"
       and n = n and tot = t and i = i and y = y])
  fix f n' t' i' y'
  assume IH: "\<And>a b c d. f a b c = Some d
                \<Longrightarrow> \<not> (js_le (Fin 9007199254740992) a \<and> c = Fin 9007199254740992)"
    and step: "(if js_le i' n' then f n' (js_add t' i') (js_add i' (Fin 1)) else Some t') = Some y'"
  show "\<not> (js_le (Fin 9007199254740992) n' \<and> i' = Fin 9007199254740992)"
  proof
    assume h: "js_le (Fin 9007199254740992) n' \<and> i' = Fin 9007199254740992"
    then have "f n' (js_add t' i') (Fin 9007199254740992) = Some y'"
      using step by (simp add: fl_stuck)
    from IH[OF this] h show False by simp
  qed
next
  show "sumIterative_loop n t i = Some y" by (rule assms)
qed

lemma loop_stuck:
  assumes "js_le (Fin (2 ^ 53)) n"
  shows "sumIterative_loop n t (Fin (2 ^ 53)) = None"
proof (cases "sumIterative_loop n t (Fin (2 ^ 53))")
  case (Some y)
  from loop_stuck_aux[OF this] assms show ?thesis by simp
qed simp

lemma js_le_below:
  fixes I :: nat
  shows "I \<le> 2 ^ 53 \<Longrightarrow> js_le (Fin (2 ^ 53)) n \<Longrightarrow> js_le (Fin (of_nat I)) n"
proof (cases n)
  case (Fin x)
  assume "I \<le> 2 ^ 53" "js_le (Fin (2 ^ 53)) n"
  then have "rat_of_nat I \<le> of_nat (2 ^ 53)" "2 ^ 53 \<le> x"
    using Fin by (simp_all only: of_nat_le_iff js_le.simps)
  then show ?thesis using Fin by simp
qed simp_all

lemma loop_never_returns:
  fixes I :: nat
  assumes "js_le (Fin (2 ^ 53)) n" "I \<le> 2 ^ 53"
  shows "sumIterative_loop n t (Fin (of_nat I)) = None"
  using assms(2)
proof (induction "2 ^ 53 - I" arbitrary: I t)
  case 0
  then have "I = 2 ^ 53" by simp
  then show ?case using loop_stuck[OF assms(1)] by simp
next
  case (Suc d)
  then have lt: "Suc I \<le> 2 ^ 53" by simp
  have a: "js_add (Fin (of_nat I)) (Fin 1) = Fin (of_nat (Suc I))"
    using fl_of_nat[OF lt] by (simp add: add.commute)
  have "sumIterative_loop n (js_add t (Fin (of_nat I))) (Fin (of_nat (Suc I))) = None"
    using Suc.hyps(2) lt by (intro Suc.hyps(1)) simp_all
  then show ?case
    using js_le_below[OF Suc.prems assms(1)]
    by (subst sumIterative_loop.simps) (simp only: a if_True)
qed

lemma sumIterative_diverges:
  assumes "js_le (Fin (2 ^ 53)) n"
  shows "sumIterative n = None"
  using loop_never_returns[OF assms, of 1] by (simp add: sumIterative_def)

text \<open>The closed form of the sum, and both strategies where every operation is exact.\<close>

lemma half_bound:
  fixes N :: nat
  assumes "N * (N + 1) div 2 \<le> 2 ^ 53"
  shows "N < 2 ^ 53"
proof (cases "2 \<le> N")
  case True
  then have "2 * (N + 1) \<le> N * (N + 1)" by (rule mult_le_mono1)
  then have "2 * (N + 1) div 2 \<le> N * (N + 1) div 2" by (rule div_le_mono)
  then show ?thesis using assms by simp
next
  case False
  then have "N < 2" by simp
  also have "(2::nat) < 2 ^ 53" by simp
  finally show ?thesis .
qed

text \<open>The bounds that keep the sum within \<open>2^53\<close>.\<close>

lemma exact_range_iff: "n * (n + 1) div 2 \<le> 2 ^ 53 \<longleftrightarrow> n \<le> 134217727" for n :: nat
proof
  assume h: "n * (n + 1) div 2 \<le> 2 ^ 53"
  show "n \<le> 134217727"
  proof (rule ccontr)
    assume "\<not> n \<le> 134217727"
    then have "134217728 \<le> n" by simp
    then have "134217728 * (134217728 + 1) \<le> n * (n + 1)" by (intro mult_le_mono) simp_all
    then have "134217728 * (134217728 + 1) div 2 \<le> n * (n + 1) div 2" by (rule div_le_mono)
    with h show False by simp
  qed
next
  assume "n \<le> 134217727"
  then have "n * (n + 1) \<le> 134217727 * (134217727 + 1)" by (intro mult_le_mono) simp_all
  then have "n * (n + 1) div 2 \<le> 134217727 * (134217727 + 1) div 2" by (rule div_le_mono)
  then show "n * (n + 1) div 2 \<le> 2 ^ 53" by simp
qed

lemma gauss: "(\<Sum>k = 1..N. k) = N * (N + 1) div 2" for N :: nat
  by (induction N) (auto)

lemma sumIterative_exact:
  fixes N :: nat
  assumes "N * (N + 1) div 2 \<le> 2 ^ 53"
  shows "sumIterative (Fin (of_nat N)) = Some (Fin (of_nat (N * (N + 1) div 2)))"
proof -
  have "0 + (\<Sum>k = 1..N. k) \<le> 2 ^ 53" using assms by (simp only: gauss add_0)
  from loop_exact[OF _ half_bound[OF assms] this]
  have "sumIterative_loop (Fin (of_nat N)) (Fin (of_nat 0)) (Fin (of_nat 1))
          = Some (Fin (of_nat (0 + (\<Sum>k = 1..N. k))))" by simp
  then show ?thesis by (simp only: sumIterative_def gauss add_0 of_nat_0 of_nat_1)
qed

lemma sumFormula_exact:
  fixes N :: nat
  assumes "N * (N + 1) div 2 \<le> 2 ^ 53"
  shows "sumFormula (Fin (of_nat N)) = Fin (of_nat (N * (N + 1) div 2))"
proof -
  define k where "k = N * (N + 1) div 2"
  have ev: "2 * k = N * (N + 1)" by (simp add: k_def)
  have "Suc N \<le> 2 ^ 53" using half_bound[OF assms] by simp
  from fl_of_nat[OF this] have a: "js_add (Fin (of_nat N)) (Fin 1) = Fin (of_nat (Suc N))"
    by (simp add: add.commute)
  have "int k \<le> int (2 ^ 53)" using assms by (simp only: k_def of_nat_le_iff)
  then have kb: "\<bar>int k\<bar> \<le> 2 ^ 53" by simp
  have "rat_of_nat N * rat_of_nat (Suc N) = of_nat (2 * k)" by (simp only: ev of_nat_mult) simp
  also have "\<dots> = of_int (2 * int k)" by simp
  finally have p: "rat_of_nat N * rat_of_nat (Suc N) = of_int (2 * int k)" .
  have m: "js_mul (Fin (of_nat N)) (Fin (of_nat (Suc N))) = Fin (of_int (2 * int k))"
    using fl_exact_even[OF kb] by (simp only: js_mul.simps p)
  have "rat_of_int (2 * int k) / 2 = of_int (int k)" by simp
  then have d: "js_div (Fin (of_int (2 * int k))) (Fin 2) = Fin (of_int (int k))"
    using fl_exact_int[OF kb] by (simp only: js_div.simps) simp
  show ?thesis
    by (simp only: sumFormula_def a m d) (simp add: k_def)
qed

lemma js_lt_not_le: "js_lt n (Fin 1) \<Longrightarrow> \<not> js_le (Fin 1) n"
  by (cases n) simp_all

text \<open>The two largest tested values.\<close>

lemma sumFormula_1e9: "sumFormula (Fin 1000000000) = Fin 500000000500000000"
proof -
  have a: "fl 1000000001 = Fin 1000000001" using fl_exact_int[of 1000000001] by simp
  have m: "fl 1000000001000000000 = Fin 1000000001000000000"
    using fl_exact[of 1000000001000000000 1953125001953125 9] by simp
  have d: "fl 500000000500000000 = Fin 500000000500000000"
    using fl_exact[of 500000000500000000 1953125001953125 8] by simp
  show ?thesis by (simp add: sumFormula_def a m d)
qed

lemma fl_big: "fl 81000000009000000000 = Fin 81000000008999993344"
proof -
  have "round_half_even (81000000009000000000 / 2 powi (66 - 52)) = 4943847656799316"
    by (rule rhe_eqI) simp
  from fl_eqI[OF _ _ _ _ this] show ?thesis by simp
qed

section \<open>The runner\<close>

text \<open>The test \<^verbatim>\<open>timeDifference > 0\<close> on the string that \<^verbatim>\<open>toFixed(6)\<close> returns.\<close>

lemma js_le_zero_not_pos: "js_le v (Fin 0) \<Longrightarrow> \<not> js_lt (Fin 0) v"
  by (cases v) simp_all

lemma label_test:
  "js_gt (toNumber (toFixed6 d)) (Fin 0) = js_le (Fin (1 / 2000000)) d"
proof (cases d)
  case (Fin x)
  show ?thesis
  proof (cases "10 ^ 21 \<le> \<bar>x\<bar>")
    case True
    then show ?thesis using Fin by (auto simp: js_gt_def)
  next
    case small: False
    show ?thesis
    proof (cases "x < 0")
      case True
      have "- rat_of_nat (nat \<lfloor>\<bar>x\<bar> * 10 ^ 6 + 1 / 2\<rfloor>) / 10 ^ 6 \<le> 0" by simp
      from js_le_zero_not_pos[OF fl_nonpos[OF this]] show ?thesis
        using Fin small True by (simp add: js_gt_def)
    next
      case False
      then have x0: "0 \<le> x" by simp
      show ?thesis
      proof (cases "1 / 2000000 \<le> x")
        case True
        then have "1 \<le> x * 10 ^ 6 + 1 / 2" by simp
        then have "1 \<le> \<lfloor>x * 10 ^ 6 + 1 / 2\<rfloor>" by (simp add: le_floor_iff)
        then have "1 \<le> nat \<lfloor>x * 10 ^ 6 + 1 / 2\<rfloor>" by linarith
        then have "rat_of_nat 1 \<le> of_nat (nat \<lfloor>x * 10 ^ 6 + 1 / 2\<rfloor>)" by (simp only: of_nat_le_iff)
        then have "1 / 10 ^ 6 \<le> rat_of_nat (nat \<lfloor>x * 10 ^ 6 + 1 / 2\<rfloor>) / 10 ^ 6"
          by (simp add: divide_right_mono)
        moreover have "(2::rat) powi (- 1074) \<le> 1 / 10 ^ 6"
        proof -
          have "(2::rat) powi (- 1074) \<le> 2 powi (- 20)" by (simp only: p2_le_iff)
          also have "\<dots> \<le> 1 / 10 ^ 6" by simp
          finally show ?thesis .
        qed
        ultimately have "2 powi (- 1074) \<le> rat_of_nat (nat \<lfloor>x * 10 ^ 6 + 1 / 2\<rfloor>) / 10 ^ 6"
          by linarith
        from fl_pos[OF this] show ?thesis
          using Fin small False True x0 by (simp add: js_gt_def abs_of_nonneg)
      next
        case lt: False
        then have "x * 10 ^ 6 + 1 / 2 < 1" by simp
        moreover have "0 \<le> x * 10 ^ 6 + 1 / 2" using x0 by simp
        ultimately have "\<lfloor>x * 10 ^ 6 + 1 / 2\<rfloor> = 0" by (intro floor_unique) simp_all
        then show ?thesis
          using Fin small False lt x0 by (simp add: js_gt_def abs_of_nonneg fl_def)
      qed
    qed
  qed
qed (simp_all add: js_gt_def)

lemma fasterMethod_eq:
  "fasterMethod a b = (if js_le (Fin (1 / 2000000)) (js_sub a b) then ''Formula'' else ''Iterative'')"
  by (simp only: fasterMethod_def Let_def label_test)

lemma not_pos_not_half: "js_le v (Fin 0) \<Longrightarrow> \<not> js_le (Fin (1 / 2000000)) v"
  by (cases v) simp_all

lemma js_lt_sub: "js_lt a b \<Longrightarrow> js_le (js_sub a b) (Fin 0)"
proof (cases a; cases b)
  fix x y assume "js_lt a b" "a = Fin x" "b = Fin y"
  then show "js_le (js_sub a b) (Fin 0)" using fl_nonpos[of "x - y"] by simp
qed simp_all

text \<open>Two durations: 1/2048 ms and 1/8192 ms, in seconds.\<close>

lemma elapsed_488ns: "fl (1 / 2048000) = Fin (4611686018427388 / 2 ^ 73)"
proof -
  have "round_half_even (1 / 2048000 / 2 powi (- 21 - 52)) = 4611686018427388"
    by (rule rhe_eqI) simp
  from fl_eqI[OF _ _ _ _ this] show ?thesis by simp
qed

lemma elapsed_122ns: "fl (1 / 8192000) = Fin (4611686018427388 / 2 ^ 75)"
proof -
  have "round_half_even (1 / 8192000 / 2 powi (- 23 - 52)) = 4611686018427388"
    by (rule rhe_eqI) simp
  from fl_eqI[OF _ _ _ _ this] show ?thesis by simp
qed

text \<open>One pass of the callback, and all of them.\<close>

lemma nonneg_div_1000: "js_le (Fin 0) d \<Longrightarrow> js_le (Fin 0) (js_div d (Fin 1000))"
proof (cases d)
  case (Fin y)
  assume "js_le (Fin 0) d"
  then have "0 \<le> y / 1000" using Fin by simp
  from fl_nonneg[OF this] show ?thesis using Fin by simp
qed simp_all

lemma measure_invoke:
  "f x = Some r \<Longrightarrow>
   measureExecTime (invoke name f) x w
     = Some (Inr \<lparr>time = elapsed (timer w) (reads w), result = r\<rparr>,
             w\<lparr>reads := reads w + 2,
               store := store w @ [\<lparr>callee = name, argument = x, readings_before = reads w + 1,
                                     lines_before = length (console w)\<rparr>]\<rparr>)"
  by (simp add: measureExecTime_def performance_now_def invoke_def elapsed_def)

lemma iteration_eq:
  assumes "sumIterative N = Some r"
  shows "iteration toStr N w
     = Some (Inr (), w\<lparr>reads := reads w + 4,
                       console := console w @ block toStr (timer w) (reads w) N,
                       store := store w @ timed_calls (reads w) (length (console w)) N\<rparr>)"
  using assms
  by (simp add: iteration_def Let_def measure_invoke console_log_def block_def timed_calls_def)



section \<open>The claims\<close>

text \<open>
  Claim C1. On the non-negative integers \<open>n\<close> for which the arithmetic of both
  strategies is exact, that is, as long as the sum \<open>n * (n + 1) / 2\<close> does not exceed
  \<open>2^53\<close> (up to \<open>n = 134217727\<close>), \<^verbatim>\<open>sumIterative(n)\<close> returns, and returns the
  value of \<^verbatim>\<open>sumFormula(n)\<close>.
\<close>

theorem strategies_agree:
  fixes n :: nat
  assumes "n * (n + 1) div 2 \<le> 2 ^ 53"
  shows "sumIterative (Fin (of_nat n)) = Some (sumFormula (Fin (of_nat n)))"
  by (simp only: sumIterative_exact[OF assms] sumFormula_exact[OF assms])

theorem strategies_agree_witness:
  "(1000::nat) * (1000 + 1) div 2 \<le> 2 ^ 53
   \<and> sumIterative (Fin 1000) = Some (sumFormula (Fin 1000))
   \<and> (134217727::nat) * (134217727 + 1) div 2 \<le> 2 ^ 53
   \<and> sumIterative (Fin 134217727) = Some (sumFormula (Fin 134217727))"
  using strategies_agree[of 1000] strategies_agree[of 134217727] by simp

text \<open>
  Claim C2, as the script has it. \<^verbatim>\<open>sumFormula(n)\<close> is the exact value
  \<open>n * (n + 1) / 2\<close> for every non-negative integer \<open>n\<close> whose sum does not exceed
  \<open>2^53\<close>, and for every tested value except the largest one.
\<close>

theorem sumFormula_exact_range:
  "(n * (n + 1) div 2 \<le> 2 ^ 53 \<longrightarrow>
      sumFormula (Fin (of_nat n)) = Fin (of_nat n * (of_nat n + 1) / 2))
   \<and> (Fin v \<in> set TESTED_VALUES \<and> v \<noteq> 9000000000 \<longrightarrow>
      sumFormula (Fin v) = Fin (v * (v + 1) / 2))"
proof (intro conjI impI)
  assume h: "n * (n + 1) div 2 \<le> 2 ^ 53"
  have "rat_of_nat (2 * (n * (n + 1) div 2)) = of_nat (n * (n + 1))" by simp
  then have "rat_of_nat (n * (n + 1) div 2) = of_nat n * (of_nat n + 1) / 2"
    by (simp only: of_nat_mult of_nat_add of_nat_1 of_nat_numeral)
  then show "sumFormula (Fin (of_nat n)) = Fin (of_nat n * (of_nat n + 1) / 2)"
    by (simp only: sumFormula_exact[OF h])
next
  assume "Fin v \<in> set TESTED_VALUES \<and> v \<noteq> 9000000000"
  then consider "v = 1" | "v = 10" | "v = 100" | "v = 1000" | "v = 10000" | "v = 100000"
    | "v = 1000000" | "v = 10000000" | "v = 100000000" | "v = 1000000000"
    by (auto simp: TESTED_VALUES_def)
  then show "sumFormula (Fin v) = Fin (v * (v + 1) / 2)"
  proof cases
    case 1 then show ?thesis using sumFormula_exact[of 1] by simp
  next
    case 2 then show ?thesis using sumFormula_exact[of 10] by simp
  next
    case 3 then show ?thesis using sumFormula_exact[of 100] by simp
  next
    case 4 then show ?thesis using sumFormula_exact[of 1000] by simp
  next
    case 5 then show ?thesis using sumFormula_exact[of 10000] by simp
  next
    case 6 then show ?thesis using sumFormula_exact[of 100000] by simp
  next
    case 7 then show ?thesis using sumFormula_exact[of 1000000] by simp
  next
    case 8 then show ?thesis using sumFormula_exact[of 10000000] by simp
  next
    case 9 then show ?thesis using sumFormula_exact[of 100000000] by simp
  next
    case 10 then show ?thesis using sumFormula_1e9 by simp
  qed
qed

text \<open>An instance of each part.\<close>

theorem sumFormula_exact_range_witness:
  "(3000::nat) * (3000 + 1) div 2 \<le> 2 ^ 53
   \<and> sumFormula (Fin 3000) = Fin 4501500
   \<and> Fin 1000000000 \<in> set TESTED_VALUES
   \<and> sumFormula (Fin 1000000000) = Fin 500000000500000000"
  using sumFormula_exact_range[of 3000 1] sumFormula_exact_range[of 0 1000000000]
  by (simp add: TESTED_VALUES_def)

text \<open>
  At the largest tested value the product \<open>9000000000 * 9000000001\<close> has 67 bits, of
  which the upper 53 survive: it is rounded to \<open>81000000008999993344\<close> before the
  division, the division halves that exactly, and the result is not the sum
  \<open>40500000004500000000\<close>.
\<close>

theorem sumFormula_largest_inexact:
  "js_mul (Fin 9000000000) (js_add (Fin 9000000000) (Fin 1)) = Fin 81000000008999993344
   \<and> sumFormula (Fin 9000000000) = Fin 40500000004499996672
   \<and> sumFormula (Fin 9000000000) \<noteq> Fin (9000000000 * (9000000000 + 1) / 2)"
proof -
  have a: "fl 9000000001 = Fin 9000000001" using fl_exact_int[of 9000000001] by simp
  have d: "fl 40500000004499996672 = Fin 40500000004499996672"
    using fl_exact[of 40500000004499996672 4943847656799316 13] by simp
  show ?thesis by (simp add: sumFormula_def a fl_big d)
qed

text \<open>
  Claim C3, as the script has it. The label is computed from the difference rounded
  to six decimals: it is \<^verbatim>\<open>Formula\<close> exactly when the difference iterative time minus
  closed-form time, as the script computes it, is at least 0.0000005 seconds, and
  \<^verbatim>\<open>Iterative\<close> otherwise. So whenever the iterative duration is strictly less than the
  closed-form duration the label is \<^verbatim>\<open>Iterative\<close>.
\<close>

theorem fasterMethod_label:
  "fasterMethod a b
     = (if js_le (Fin (1 / 2000000)) (js_sub a b) then ''Formula'' else ''Iterative'')
   \<and> (js_lt a b \<longrightarrow> fasterMethod a b = ''Iterative'')"
  using not_pos_not_half[OF js_lt_sub, of a b] by (simp add: fasterMethod_eq)

theorem fasterMethod_label_witness:
  "js_lt (Fin (1 / 4)) (Fin (1 / 2)) \<and> fasterMethod (Fin (1 / 4)) (Fin (1 / 2)) = ''Iterative''
   \<and> fasterMethod (Fin (1 / 2)) (Fin (1 / 4)) = ''Formula''"
proof -
  have "fl (1 / 4) = Fin (1 / 4)" using fl_exact[of "1 / 4" 1 "- 2"] by simp
  then show ?thesis
    using fasterMethod_label[of "Fin (1 / 4)" "Fin (1 / 2)", THEN conjunct2]
      fasterMethod_label[of "Fin (1 / 2)" "Fin (1 / 4)", THEN conjunct1]
    by simp
qed

text \<open>
  An iterative duration that exceeds the closed-form one by less than half a
  microsecond is labelled \<^verbatim>\<open>Iterative\<close>: with 1/2048 ms measured for the loop and
  1/8192 ms for the formula the difference is 0.000000366 s, \<^verbatim>\<open>toFixed(6)\<close> gives
  \<^verbatim>\<open>0.000000\<close>, and that is not greater than 0.
\<close>

theorem fasterMethod_small_gap:
  "js_div (Fin (1 / 2048)) (Fin 1000) = Fin (4611686018427388 / 2 ^ 73)
   \<and> js_div (Fin (1 / 8192)) (Fin 1000) = Fin (4611686018427388 / 2 ^ 75)
   \<and> js_gt (Fin (4611686018427388 / 2 ^ 73)) (Fin (4611686018427388 / 2 ^ 75))
   \<and> fasterMethod (Fin (4611686018427388 / 2 ^ 73)) (Fin (4611686018427388 / 2 ^ 75)) = ''Iterative''"
proof -
  have d: "fl (4611686018427388 / 2 ^ 73 - 4611686018427388 / 2 ^ 75)
             = Fin (3458764513820541 / 2 ^ 73)"
    using fl_exact[of "3458764513820541 / 2 ^ 73" 3458764513820541 "- 73"] by simp
  have "js_sub (Fin (4611686018427388 / 2 ^ 73)) (Fin (4611686018427388 / 2 ^ 75))
          = Fin (3458764513820541 / 2 ^ 73)"
    by (simp only: js_sub.simps d)
  then have "fasterMethod (Fin (4611686018427388 / 2 ^ 73)) (Fin (4611686018427388 / 2 ^ 75)) = ''Iterative''"
    by (simp only: fasterMethod_eq) simp
  then show ?thesis using elapsed_488ns elapsed_122ns by (simp add: js_gt_def)
qed

text \<open>
  Claim C4, as the script has it. The tested values are non-negative integers in
  ascending order; the largest exceeds the range of a 32-bit signed integer, and all
  of them are within the range of a 64-bit signed integer.
\<close>

theorem tested_values_shape:
  "list_all nonneg_integer TESTED_VALUES
   \<and> sorted_wrt js_lt TESTED_VALUES
   \<and> list_ex (js_lt (Fin (2 ^ 31 - 1))) TESTED_VALUES
   \<and> list_all (\<lambda>v. js_le v (Fin (2 ^ 63 - 1))) TESTED_VALUES"
  by (simp add: TESTED_VALUES_def)

text \<open>No tested value exceeds \<open>2^63 - 1\<close>.\<close>

theorem tested_values_within_int64:
  "\<not> list_ex (js_lt (Fin (2 ^ 63 - 1))) TESTED_VALUES"
  by (simp add: TESTED_VALUES_def)

text \<open>
  Claim C5. For a non-negative integer \<open>n\<close> whose sum \<open>1 + 2 + ... + n\<close> does not
  exceed \<open>2^53\<close>, \<^verbatim>\<open>sumIterative(n)\<close> returns that sum, and it gets there by a running
  total: whenever the loop is about to test \<open>i\<close>, with \<open>1 + ... + (i - 1)\<close> in
  \<^verbatim>\<open>total\<close>, it ends with the whole sum. In particular \<^verbatim>\<open>sumIterative(10)\<close> is 55 and
  \<^verbatim>\<open>sumIterative(100)\<close> is 5050.
\<close>

theorem sumIterative_sum:
  fixes n :: nat
  assumes "(\<Sum>k = 1..n. k) \<le> 2 ^ 53"
  shows "sumIterative (Fin (of_nat n)) = Some (Fin (of_nat (\<Sum>k = 1..n. k)))
       \<and> (\<forall>i. 1 \<le> i \<and> i \<le> Suc n \<longrightarrow>
            sumIterative_loop (Fin (of_nat n)) (Fin (of_nat (\<Sum>k = 1..<i. k))) (Fin (of_nat i))
              = Some (Fin (of_nat (\<Sum>k = 1..n. k))))
       \<and> sumIterative (Fin 10) = Some (Fin 55)
       \<and> sumIterative (Fin 100) = Some (Fin 5050)"
proof -
  have h: "n * (n + 1) div 2 \<le> 2 ^ 53" using assms by (simp only: gauss)
  have 1: "sumIterative (Fin (of_nat n)) = Some (Fin (of_nat (\<Sum>k = 1..n. k)))"
    by (simp only: sumIterative_exact[OF h] gauss)
  have 2: "sumIterative_loop (Fin (of_nat n)) (Fin (of_nat (\<Sum>k = 1..<i. k))) (Fin (of_nat i))
              = Some (Fin (of_nat (\<Sum>k = 1..n. k)))" if i: "1 \<le> i" "i \<le> Suc n" for i
  proof -
    have "{1..n} = {1..<i} \<union> {i..n}" using i by auto
    moreover have "{1..<i} \<inter> {i..n} = {}" by auto
    ultimately have split: "(\<Sum>k = 1..n. k) = (\<Sum>k = 1..<i. k) + (\<Sum>k = i..n. k)"
      by (simp add: sum.union_disjoint)
    then have "(\<Sum>k = 1..<i. k) + (\<Sum>k = i..n. k) \<le> 2 ^ 53" using assms by simp
    from loop_exact[OF i(2) half_bound[OF h] this] show ?thesis by (simp only: split)
  qed
  have 3: "sumIterative (Fin 10) = Some (Fin 55)" using sumIterative_exact[of 10] by simp
  have 4: "sumIterative (Fin 100) = Some (Fin 5050)" using sumIterative_exact[of 100] by simp
  from 1 2 3 4 show ?thesis by blast
qed

theorem sumIterative_sum_witness:
  "sumIterative (Fin 4) = Some (Fin 10)
   \<and> sumIterative_loop (Fin 4) (Fin 3) (Fin 3) = Some (Fin 10)"
proof -
  have "{1..<3::nat} = {1..2}" by auto
  then have s: "(\<Sum>k = 1..4::nat. k) = 10" "(\<Sum>k = 1..<3::nat. k) = 3"
    by (simp_all only: gauss) simp_all
  have "(\<Sum>k = 1..4::nat. k) \<le> 2 ^ 53" by (simp only: s) simp
  from sumIterative_sum[OF this]
  have a: "sumIterative (Fin (of_nat 4)) = Some (Fin (of_nat (\<Sum>k = 1..4::nat. k)))"
    and b: "\<forall>i. 1 \<le> i \<and> i \<le> Suc 4 \<longrightarrow>
            sumIterative_loop (Fin (of_nat 4)) (Fin (of_nat (\<Sum>k = 1..<i. k))) (Fin (of_nat i))
              = Some (Fin (of_nat (\<Sum>k = 1..4::nat. k)))"
    by blast+
  have "sumIterative_loop (Fin (of_nat 4)) (Fin (of_nat (\<Sum>k = 1..<3::nat. k))) (Fin (of_nat 3))
              = Some (Fin (of_nat (\<Sum>k = 1..4::nat. k)))"
    using b[rule_format, of 3] by simp
  with a show ?thesis by (simp only: s) simp
qed

text \<open>
  Claim C6. At the bound zero \<^verbatim>\<open>sumIterative\<close> and \<^verbatim>\<open>sumFormula\<close> both return 0.
\<close>

theorem zero_bound: "sumIterative (Fin 0) = Some (Fin 0) \<and> sumFormula (Fin 0) = Fin 0"
proof
  show "sumIterative (Fin 0) = Some (Fin 0)"
    unfolding sumIterative_def by (subst sumIterative_loop.simps) simp
  show "sumFormula (Fin 0) = Fin 0"
    by (simp add: sumFormula_def fl_1) (simp add: fl_def)
qed

text \<open>
  Claim C7. \<^verbatim>\<open>measureExecTime\<close> runs the computation once, between its two readings
  of the clock. When the computation returns \<open>r\<close> and leaves the world \<open>w2\<close>, the
  helper returns \<open>r\<close> unchanged with the difference of the two readings divided by
  1000, and the world is \<open>w2\<close> with one more reading taken: the effects are those of a
  single run. That duration is non-negative when the second reading is not earlier
  than the first, which a monotonic clock guarantees. When the computation throws
  \<open>e\<close>, the helper throws \<open>e\<close> from the world the computation left; when it does not
  return, neither does the helper.
\<close>

theorem measureExecTime_contract:
  "(func args (w\<lparr>reads := Suc (reads w)\<rparr>) = Some (Inr r, w2) \<longrightarrow>
      measureExecTime func args w
        = Some (Inr \<lparr>time = js_div (js_sub (Fin (timer w2 (reads w2))) (Fin (timer w (reads w))))
                              (Fin 1000),
                      result = r\<rparr>,
                w2\<lparr>reads := Suc (reads w2)\<rparr>)
      \<and> (timer w (reads w) \<le> timer w2 (reads w2) \<longrightarrow>
           js_le (Fin 0) (js_div (js_sub (Fin (timer w2 (reads w2))) (Fin (timer w (reads w))))
                                 (Fin 1000))))
   \<and> (func args (w\<lparr>reads := Suc (reads w)\<rparr>) = Some (Inl e, w2) \<longrightarrow>
        measureExecTime func args w = Some (Inl e, w2))
   \<and> (func args (w\<lparr>reads := Suc (reads w)\<rparr>) = None \<longrightarrow>
        measureExecTime func args w = None)"
proof (intro conjI impI)
  assume "timer w (reads w) \<le> timer w2 (reads w2)"
  then have "0 \<le> timer w2 (reads w2) - timer w (reads w)" by simp
  from nonneg_div_1000[OF fl_nonneg[OF this]]
  show "js_le (Fin 0) (js_div (js_sub (Fin (timer w2 (reads w2))) (Fin (timer w (reads w))))
                                 (Fin 1000))" by simp
qed (simp_all add: measureExecTime_def performance_now_def)

text \<open>
  A computation that counts its runs in the store: one run is counted, whether it
  returns or throws. And one that never comes back.
\<close>

theorem measureExecTime_contract_witness:
  "measureExecTime (\<lambda>x w. Some (Inr (x + 1) :: string + nat, w\<lparr>store := Suc (store w)\<rparr>)) (41::nat)
       \<lparr>timer = (\<lambda>k. 3 * of_nat k), reads = 0, console = [], store = 0::nat\<rparr>
     = Some (Inr \<lparr>time = js_div (js_sub (Fin 3) (Fin 0)) (Fin 1000), result = 42\<rparr>,
             \<lparr>timer = (\<lambda>k. 3 * of_nat k), reads = 2, console = [], store = 1\<rparr>)
   \<and> js_le (Fin 0) (js_div (js_sub (Fin 3) (Fin 0)) (Fin 1000))
   \<and> measureExecTime (\<lambda>x w. Some (Inl ''boom'' :: string + nat, w\<lparr>store := Suc (store w)\<rparr>)) (41::nat)
         \<lparr>timer = (\<lambda>k. 3 * of_nat k), reads = 0, console = [], store = 0::nat\<rparr>
       = Some (Inl ''boom'', \<lparr>timer = (\<lambda>k. 3 * of_nat k), reads = 1, console = [], store = 1\<rparr>)
   \<and> measureExecTime (\<lambda>x w. None :: ((string + nat) \<times> nat world) option) (41::nat)
         \<lparr>timer = (\<lambda>k. 3 * of_nat k), reads = 0, console = [], store = 0::nat\<rparr>
       = None"
proof -
  let ?w = "\<lparr>timer = (\<lambda>k. 3 * rat_of_nat k), reads = 0, console = [], store = 0::nat\<rparr>"
  let ?w2 = "\<lparr>timer = (\<lambda>k. 3 * rat_of_nat k), reads = 1, console = [], store = 1::nat\<rparr>"
  let ?f = "\<lambda>(x::nat) (w::nat world). Some (Inr (x + 1) :: string + nat, w\<lparr>store := Suc (store w)\<rparr>)"
  let ?g = "\<lambda>(x::nat) (w::nat world). Some (Inl ''boom'' :: string + nat, w\<lparr>store := Suc (store w)\<rparr>)"
  have f: "?f 41 (?w\<lparr>reads := Suc (reads ?w)\<rparr>) = Some (Inr 42, ?w2)" by simp
  have g: "?g 41 (?w\<lparr>reads := Suc (reads ?w)\<rparr>) = Some (Inl ''boom'', ?w2)" by simp
  have t: "timer ?w (reads ?w) \<le> timer ?w2 (reads ?w2)" by simp
  note c1 = measureExecTime_contract[of ?f 41 ?w 42 ?w2, THEN conjunct1, rule_format, OF f]
  note c2 = measureExecTime_contract[of ?g 41 ?w _ ?w2 "''boom''", THEN conjunct2, THEN conjunct1,
      rule_format, OF g]
  note c3 = measureExecTime_contract[of "\<lambda>x w. None" "41::nat" ?w _ _ _, THEN conjunct2,
      THEN conjunct2, rule_format, OF refl]
  from c1[THEN conjunct1] c1[THEN conjunct2, rule_format, OF t] c2 c3
  show ?thesis by (simp add: numeral_2_eq_2)
qed

text \<open>
  Claim C8. When the two results are equal under \<^verbatim>\<open>===\<close> the line written is the
  consistent one; when they are not, it is the warning, and the warning contains the
  string of each of the two results. This line is the last one the callback writes
  for a tested value.
\<close>

theorem verdict_reports:
  "(strict_eq a b \<longrightarrow>
      verdict_line toStr a b = ESC @ ''[32mResults are consistent: '' @ toStr a @ ESC @ ''[0m'')
   \<and> (\<not> strict_eq a b \<longrightarrow>
        verdict_line toStr a b
          = ESC @ ''[31mWARNING: Results different! Iterative: '' @ toStr a
              @ '', Formula: '' @ toStr b @ ESC @ ''[0m''
        \<and> sublist (toStr a) (verdict_line toStr a b)
        \<and> sublist (toStr b) (verdict_line toStr a b))
   \<and> (sumIterative N = Some r \<longrightarrow>
        (\<exists>w'. iteration toStr N w = Some (Inr (), w')
           \<and> last (console w') = verdict_line toStr r (sumFormula N)))"
proof (intro conjI impI)
  assume ne: "\<not> strict_eq a b"
  then show eq: "verdict_line toStr a b
          = ESC @ ''[31mWARNING: Results different! Iterative: '' @ toStr a
              @ '', Formula: '' @ toStr b @ ESC @ ''[0m''"
    by (simp add: verdict_line_def strict_ne_def)
  show "sublist (toStr a) (verdict_line toStr a b)"
    unfolding eq sublist_def
    by (rule exI[of _ "ESC @ ''[31mWARNING: Results different! Iterative: ''"],
        rule exI[of _ "'', Formula: '' @ toStr b @ ESC @ ''[0m''"]) simp
  show "sublist (toStr b) (verdict_line toStr a b)"
    unfolding eq sublist_def
    by (rule exI[of _ "ESC @ ''[31mWARNING: Results different! Iterative: '' @ toStr a @ '', Formula: ''"],
        rule exI[of _ "ESC @ ''[0m''"]) simp
next
  assume "sumIterative N = Some r"
  then show "\<exists>w'. iteration toStr N w = Some (Inr (), w')
           \<and> last (console w') = verdict_line toStr r (sumFormula N)"
    by (intro exI[of _ "w\<lparr>reads := reads w + 4,
                       console := console w @ block toStr (timer w) (reads w) N,
                       store := store w @ timed_calls (reads w) (length (console w)) N\<rparr>"])
       (simp add: iteration_eq block_def)
qed (simp add: verdict_line_def strict_ne_def)

theorem verdict_reports_witness:
  "(let toStr = (\<lambda>v. if v = Fin 55 then ''55'' else ''56'') in
    verdict_line toStr (Fin 55) (Fin 55) = ESC @ ''[32mResults are consistent: 55'' @ ESC @ ''[0m''
    \<and> verdict_line toStr (Fin 55) (Fin 56)
        = ESC @ ''[31mWARNING: Results different! Iterative: 55, Formula: 56'' @ ESC @ ''[0m''
    \<and> sublist ''55'' (verdict_line toStr (Fin 55) (Fin 56))
    \<and> sublist ''56'' (verdict_line toStr (Fin 55) (Fin 56))
    \<and> (\<exists>w'. iteration toStr (Fin 10)
                \<lparr>timer = (\<lambda>k. of_nat k), reads = 0, console = [], store = []\<rparr>
              = Some (Inr () :: unit + unit, w')
           \<and> last (console w') = ESC @ ''[32mResults are consistent: 55'' @ ESC @ ''[0m''))"
proof -
  let ?T = "\<lambda>v. if v = Fin 55 then ''55'' else ''56''"
  let ?w = "\<lparr>timer = (\<lambda>k. rat_of_nat k), reads = 0, console = [], store = []\<rparr>"
  have it: "sumIterative (Fin 10) = Some (Fin 55)" using sumIterative_exact[of 10] by simp
  have fo: "sumFormula (Fin 10) = Fin 55" using sumFormula_exact[of 10] by simp
  have T55: "?T (Fin 55) = ''55''" and T56: "?T (Fin 56) = ''56''" by simp_all
  have eq: "strict_eq (Fin 55) (Fin 55)" and ne: "\<not> strict_eq (Fin 55) (Fin 56)" by simp_all
  note c = verdict_reports[of "Fin 55" "Fin 55" ?T "Fin 10" "Fin 55" ?w, THEN conjunct1,
      rule_format, OF eq]
  note m = verdict_reports[of "Fin 55" "Fin 56" ?T "Fin 10" "Fin 55" ?w, THEN conjunct2,
      THEN conjunct1, rule_format, OF ne]
  note i = verdict_reports[of "Fin 55" "Fin 55" ?T "Fin 10" "Fin 55" ?w, THEN conjunct2,
      THEN conjunct2, rule_format, OF it]
  have 1: "verdict_line ?T (Fin 55) (Fin 55)
             = ESC @ ''[32mResults are consistent: 55'' @ ESC @ ''[0m''"
    using c by simp
  have 2: "verdict_line ?T (Fin 55) (Fin 56)
        = ESC @ ''[31mWARNING: Results different! Iterative: 55, Formula: 56'' @ ESC @ ''[0m''"
    using m[THEN conjunct1] by simp
  have 3: "sublist ''55'' (verdict_line ?T (Fin 55) (Fin 56))"
    using m[THEN conjunct2, THEN conjunct1] by (simp only: T55)
  have 4: "sublist ''56'' (verdict_line ?T (Fin 55) (Fin 56))"
    using m[THEN conjunct2, THEN conjunct2] by (simp only: T56)
  have 5: "\<exists>w'. iteration ?T (Fin 10) ?w = Some (Inr () :: unit + unit, w')
           \<and> last (console w') = ESC @ ''[32mResults are consistent: 55'' @ ESC @ ''[0m''"
    using i by (simp only: fo 1)
  from 1 2 3 4 5 show ?thesis by (simp only: Let_def)
qed


text \<open>
  Claim C10. For every number \<open>n\<close> strictly less than 1 (a negative number, a
  fraction, minus infinity) the loop body of \<^verbatim>\<open>sumIterative\<close> never runs and the
  result is 0.
\<close>

theorem sumIterative_below_one:
  assumes "js_lt n (Fin 1)"
  shows "sumIterative n = Some (Fin 0)"
  unfolding sumIterative_def
  by (subst sumIterative_loop.simps) (simp add: js_lt_not_le[OF assms])

theorem sumIterative_below_one_witness:
  "js_lt (Fin (- 5)) (Fin 1) \<and> sumIterative (Fin (- 5)) = Some (Fin 0)
   \<and> js_lt (Fin (1 / 2)) (Fin 1) \<and> sumIterative (Fin (1 / 2)) = Some (Fin 0)
   \<and> js_lt NInf (Fin 1) \<and> sumIterative NInf = Some (Fin 0)"
  using sumIterative_below_one[of "Fin (- 5)"] sumIterative_below_one[of "Fin (1 / 2)"]
    sumIterative_below_one[of NInf]
  by simp

end
